theory Spec2Isabelle
  imports Complex_Main "HOL-Library.Log_Nat"
begin

section \<open>Python numbers\<close>

text \<open>
  The rank card computes with Python \<^verbatim>\<open>int\<close> (unbounded, modelled as \<^typ>\<open>int\<close>) and with
  Python \<^verbatim>\<open>float\<close>: \<^verbatim>\<open>a / b\<close> on two ints is true division and yields the IEEE-754 binary64
  number nearest to the exact quotient (ties to even), raising \<^verbatim>\<open>ZeroDivisionError\<close> for
  \<^verbatim>\<open>b == 0\<close> and \<^verbatim>\<open>OverflowError\<close> when the quotient is too large for a float. A finite float is
  modelled by the rational number it denotes. The sign of a zero is not recorded: the only
  float that can be a zero here is compared with 50 and replaced by it.
\<close>

text \<open>\<open>ilog2 x\<close> is the binary exponent of a positive rational: \<open>2 ^ ilog2 x \<le> x < 2 ^ (ilog2 x + 1)\<close>.\<close>

definition ilog2 :: "rat \<Rightarrow> int" where
  "ilog2 x = (if 1 \<le> x then bitlen \<lfloor>x\<rfloor> - 1 else - bitlen (\<lceil>1 / x\<rceil> - 1))"

definition round_half_even :: "rat \<Rightarrow> int" where
  "round_half_even q =
     (let f = \<lfloor>q\<rfloor>; d = q - of_int f
      in if d < 1 / 2 then f else if 1 / 2 < d then f + 1 else if even f then f else f + 1)"

text \<open>
  Rounding a positive magnitude to 53 significant bits, with the exponent held at \<open>-1022\<close> in
  the subnormal range and not yet bounded above.
\<close>

definition round_mag :: "rat \<Rightarrow> rat" where
  "round_mag a =
     (let e = max (ilog2 a) (- 1022)
      in of_int (round_half_even (a * 2 powi (52 - e))) * 2 powi (e - 52))"

text \<open>The nearest binary64 number; \<open>None\<close> when the rounded magnitude reaches \<open>2 ^ 1024\<close>.\<close>

definition round_double :: "rat \<Rightarrow> rat option" where
  "round_double x =
     (if x = 0 then Some 0
      else let v = round_mag \<bar>x\<bar>
           in if 2 powi 1024 \<le> v then None else Some (sgn x * v))"

datatype error =
    InvalidImageType
  | InvalidImageUrl
  | AttributeError
  | ZeroDivisionError
  | OverflowError
  | OSError
  | UnidentifiedImageError
  | ClientError

text \<open>\<^verbatim>\<open>a / b\<close> on two Python ints.\<close>

definition py_truediv :: "int \<Rightarrow> int \<Rightarrow> error + rat" where
  "py_truediv a b =
     (if b = 0 then Inl ZeroDivisionError
      else case round_double (of_int a / of_int b) of
             None \<Rightarrow> Inl OverflowError
           | Some v \<Rightarrow> Inr v)"

text \<open>
  A float product does not raise: beyond the binary64 range it is an infinity.
\<close>

datatype pyfloat = Fin rat | PosInf | NegInf

definition float_mul :: "rat \<Rightarrow> rat \<Rightarrow> pyfloat" where
  "float_mul a b =
     (case round_double (a * b) of
        Some v \<Rightarrow> Fin v
      | None \<Rightarrow> if 0 < a * b then PosInf else NegInf)"

fun float_le :: "pyfloat \<Rightarrow> pyfloat \<Rightarrow> bool" where
  "float_le NegInf _ = True"
| "float_le _ PosInf = True"
| "float_le (Fin a) (Fin b) = (a \<le> b)"
| "float_le _ _ = False"

section \<open>Python strings of numbers\<close>

definition digit_char :: "nat \<Rightarrow> char" where
  "digit_char d = ''0123456789'' ! d"

fun digits :: "nat \<Rightarrow> string" where
  "digits n = (if n < 10 then [digit_char n] else digits (n div 10) @ [digit_char (n mod 10)])"

declare digits.simps [simp del]

text \<open>\<^verbatim>\<open>str(number)\<close> for an int.\<close>

definition str_int :: "int \<Rightarrow> string" where
  "str_int n = (if n < 0 then CHR ''-'' # digits (nat (- n)) else digits (nat n))"

text \<open>
  \<^verbatim>\<open>f"{v:.3f}"\<close> for a finite float: the exact value of the float, rounded to three decimals
  (ties to even), with at least one digit before the point.
\<close>

definition three_digits :: "nat \<Rightarrow> string" where
  "three_digits k =
     [digit_char (k div 100 mod 10), digit_char (k div 10 mod 10), digit_char (k mod 10)]"

definition format_3f :: "rat \<Rightarrow> string" where
  "format_3f v =
     (let k = nat (round_half_even (\<bar>v\<bar> * 1000))
      in (if v < 0 then ''-'' else '''') @ digits (k div 1000) @ ''.'' @ three_digits k)"

text \<open>The value a string of decimal digits denotes, read left to right.\<close>

definition decimal_value :: "string \<Rightarrow> nat" where
  "decimal_value s = foldl (\<lambda>acc c. 10 * acc + (of_char c - 48)) 0 s"

section \<open>\<^verbatim>\<open>RankCard._convert_number\<close> (rank_card.py, lines 136-143)\<close>

definition RankCard_convert_number :: "int \<Rightarrow> error + string" where
  "RankCard_convert_number number =
     (if number \<ge> 1000000 then
        (case py_truediv number 1000000 of
           Inl e \<Rightarrow> Inl e
         | Inr v \<Rightarrow> Inr (format_3f v @ ''M''))
      else if number \<ge> 1000 then
        (case py_truediv number 1000 of
           Inl e \<Rightarrow> Inl e
         | Inr v \<Rightarrow> Inr (format_3f v @ ''K''))
      else Inr (str_int number))"

section \<open>The progress bar width (rank_card.py, lines 207-209)\<close>

text \<open>
  \<^verbatim>\<open>bar_exp = (self.current_xp/self.max_xp)*420\<close>, then \<^verbatim>\<open>if bar_exp <= 50: bar_exp = 50\<close>.
  The int 50 and the float 50.0 are the same number and are not told apart.
\<close>

definition bar_exp :: "int \<Rightarrow> int \<Rightarrow> error + pyfloat" where
  "bar_exp current_xp max_xp =
     (case py_truediv current_xp max_xp of
        Inl e \<Rightarrow> Inl e
      | Inr r \<Rightarrow>
          (let b = float_mul r 420
           in if float_le b (Fin 50) then Inr (Fin 50) else Inr b))"

section \<open>Images, buffers and the outside world\<close>

text \<open>
  Pillow images are kept symbolically: an image is the term of the calls that built it, so
  that every coordinate, size and layer of the card can be read off the result. Colours are a
  name (\<^verbatim>\<open>"white"\<close>, a hex code) or a tuple of channel values.
\<close>

type_synonym bytes = string

datatype color = ColorName string | ColorTuple "nat list"

datatype font = Font string nat

datatype image =
    Decoded bytes "nat \<times> nat"
  | Asset string "nat \<times> nat"
  | New string "nat \<times> nat" "color option"
  | Resize image "nat \<times> nat"
  | Convert image string
  | Band image nat
  | Paste image image "int \<times> int" "image option"
  | DrawText image "rat \<times> rat" string font color nat color
  | DrawRoundedRectangle image string "rat \<times> rat \<times> pyfloat \<times> rat" rat color

text \<open>\<^verbatim>\<open>im.size\<close>: drawing and pasting keep the size of the image drawn on.\<close>

fun im_size :: "image \<Rightarrow> nat \<times> nat" where
  "im_size (Decoded _ sz) = sz"
| "im_size (Asset _ sz) = sz"
| "im_size (New _ sz _) = sz"
| "im_size (Resize _ sz) = sz"
| "im_size (Convert im _) = im_size im"
| "im_size (Band im _) = im_size im"
| "im_size (Paste im _ _ _) = im_size im"
| "im_size (DrawText im _ _ _ _ _ _) = im_size im"
| "im_size (DrawRoundedRectangle im _ _ _ _) = im_size im"

text \<open>
  The \<^verbatim>\<open>draw.text\<close> calls an image carries (position, text, font), oldest first, and the
  boxes of its \<^verbatim>\<open>draw.rounded_rectangle\<close> calls. A pasted picture brings its own along.
\<close>

fun drawn_texts :: "image \<Rightarrow> ((rat \<times> rat) \<times> string \<times> font) list" where
  "drawn_texts (Decoded _ _) = []"
| "drawn_texts (Asset _ _) = []"
| "drawn_texts (New _ _ _) = []"
| "drawn_texts (Resize im _) = drawn_texts im"
| "drawn_texts (Convert im _) = drawn_texts im"
| "drawn_texts (Band im _) = drawn_texts im"
| "drawn_texts (Paste im src _ _) = drawn_texts im @ drawn_texts src"
| "drawn_texts (DrawText im xy s f _ _ _) = drawn_texts im @ [(xy, s, f)]"
| "drawn_texts (DrawRoundedRectangle im _ _ _ _) = drawn_texts im"

fun drawn_rectangles :: "image \<Rightarrow> (rat \<times> rat \<times> pyfloat \<times> rat) list" where
  "drawn_rectangles (Decoded _ _) = []"
| "drawn_rectangles (Asset _ _) = []"
| "drawn_rectangles (New _ _ _) = []"
| "drawn_rectangles (Resize im _) = drawn_rectangles im"
| "drawn_rectangles (Convert im _) = drawn_rectangles im"
| "drawn_rectangles (Band im _) = drawn_rectangles im"
| "drawn_rectangles (Paste im src _ _) = drawn_rectangles im @ drawn_rectangles src"
| "drawn_rectangles (DrawText im _ _ _ _ _ _) = drawn_rectangles im"
| "drawn_rectangles (DrawRoundedRectangle im _ box _ _) = drawn_rectangles im @ [box]"

text \<open>
  A file object (an instance of \<^verbatim>\<open>IOBase\<close>). The attribute \<^verbatim>\<open>mode\<close> exists on the objects
  \<^verbatim>\<open>open()\<close> returns; \<^verbatim>\<open>io.BytesIO\<close> and \<^verbatim>\<open>io.StringIO\<close> have none, and reading a missing
  attribute raises \<^verbatim>\<open>AttributeError\<close>. The buffer is taken to be open.
\<close>

record buffer =
  seekable :: bool
  readable :: bool
  mode :: "string option"
  content :: bytes

text \<open>
  What the fields \<^verbatim>\<open>background\<close> and \<^verbatim>\<open>avatar\<close> may hold at run time: a file object, a
  \<^verbatim>\<open>str\<close>, a Pillow image (after \<^verbatim>\<open>create\<close> has stored one), or an object of another type,
  given by the name of its type.
\<close>

datatype pyobj = FileObj buffer | Str string | ImageObj image | Other string

record bytesio =
  data :: bytes
  pos :: nat

text \<open>What \<^verbatim>\<open>create\<close> does to the outside, in order.\<close>

datatype event =
    HttpGet string
  | HttpRead string
  | FileOpen string string
  | ImageOpen bytes
  | AssetOpen string
  | FontOpen string nat
  | Print

text \<open>
  The outside world is a parameter: the answer of the network to a GET (status and body, or
  no response at all), the bytes of the files that can be opened for reading, the size of the
  picture a byte string decodes to (if it is an image), the measured size of a text in a font,
  the sizes of the bundled assets, whether pasting the avatar through its own alpha band
  raises, and the encoder. The bundled assets and the font are taken to be present.
\<close>

record world =
  http_get :: "string \<Rightarrow> (int \<times> bytes) option"
  open_file :: "string \<Rightarrow> bytes option"
  identify :: "bytes \<Rightarrow> (nat \<times> nat) option"
  textsize :: "font \<Rightarrow> string \<Rightarrow> int \<times> int"
  asset_size :: "string \<Rightarrow> nat \<times> nat"
  alpha_paste_raises :: "image \<Rightarrow> bool"
  encode :: "string \<Rightarrow> image \<Rightarrow> bytes"

text \<open>\<^verbatim>\<open>Image.open(fp)\<close> on a stream of bytes.\<close>

definition Image_open :: "world \<Rightarrow> bytes \<Rightarrow> (error + image) \<times> event list" where
  "Image_open w b =
     (case identify w b of
        None \<Rightarrow> (Inl UnidentifiedImageError, [ImageOpen b])
      | Some sz \<Rightarrow> (Inr (Decoded b sz), [ImageOpen b]))"

text \<open>\<^verbatim>\<open>Image.open(open(name, "rb"))\<close>.\<close>

definition Image_open_rb :: "world \<Rightarrow> string \<Rightarrow> (error + image) \<times> event list" where
  "Image_open_rb w name =
     (case open_file w name of
        None \<Rightarrow> (Inl OSError, [FileOpen name ''rb''])
      | Some b \<Rightarrow> (case Image_open w b of (r, t) \<Rightarrow> (r, FileOpen name ''rb'' # t)))"

text \<open>\<^verbatim>\<open>s.startswith(p)\<close>.\<close>

definition startswith :: "string \<Rightarrow> string \<Rightarrow> bool" where
  "startswith s p = (take (length p) s = p)"

section \<open>\<^verbatim>\<open>RankCard._image\<close> (lines 145-152)\<close>

definition RankCard_image :: "world \<Rightarrow> string \<Rightarrow> (error + image) \<times> event list" where
  "RankCard_image w url =
     (case http_get w url of
        None \<Rightarrow> (Inl ClientError, [HttpGet url])
      | Some (status, body) \<Rightarrow>
          if status \<noteq> 200 then (Inl InvalidImageUrl, [HttpGet url])
          else (case Image_open w body of (r, t) \<Rightarrow> (r, [HttpGet url, HttpRead url] @ t)))"

section \<open>\<^verbatim>\<open>Settings\<close> and \<^verbatim>\<open>RankCard\<close> (lines 36-134)\<close>

record settings =
  s_background :: pyobj
  s_bar_color :: string
  s_text_color :: string

record rankcard =
  background :: pyobj
  bar_color :: string
  text_color :: string
  avatar :: pyobj
  level :: int
  username :: string
  current_xp :: int
  max_xp :: int

definition RankCard_init ::
  "settings \<Rightarrow> pyobj \<Rightarrow> int \<Rightarrow> string \<Rightarrow> int \<Rightarrow> int \<Rightarrow> rankcard" where
  "RankCard_init st av lv un cx mx =
     \<lparr>background = s_background st, bar_color = s_bar_color st, text_color = s_text_color st,
      avatar = av, level = lv, username = un, current_xp = cx, max_xp = mx\<rparr>"

section \<open>\<^verbatim>\<open>RankCard.create\<close> (lines 154-243)\<close>

text \<open>
  Lines 173-183: the value assigned to \<^verbatim>\<open>self.background\<close>. Python's \<^verbatim>\<open>and\<close> evaluates
  \<^verbatim>\<open>seekable()\<close>, then \<^verbatim>\<open>readable()\<close>, then the attribute \<^verbatim>\<open>mode\<close>, and stops at the first
  false one.
\<close>

definition create_background :: "world \<Rightarrow> pyobj \<Rightarrow> (error + image) \<times> event list" where
  "create_background w bg =
     (case bg of
        FileObj b \<Rightarrow>
          if \<not> seekable b then (Inl InvalidImageType, [])
          else if \<not> readable b then (Inl InvalidImageType, [])
          else (case mode b of
                  None \<Rightarrow> (Inl AttributeError, [])
                | Some m \<Rightarrow>
                    if m \<noteq> ''rb'' then (Inl InvalidImageType, [])
                    else Image_open w (content b))
      | Str s \<Rightarrow>
          if startswith s ''http'' then RankCard_image w s else Image_open_rb w s
      | _ \<Rightarrow> (Inl InvalidImageType, []))"

text \<open>Lines 185-191: the value assigned to \<^verbatim>\<open>self.avatar\<close>.\<close>

definition create_avatar :: "world \<Rightarrow> pyobj \<Rightarrow> (error + image) \<times> event list" where
  "create_avatar w av =
     (case av of
        Str s \<Rightarrow>
          if startswith s ''http'' then RankCard_image w s else Image_open_rb w s
      | _ \<Rightarrow> (Inl InvalidImageType, []))"

text \<open>
  \<^verbatim>\<open>image = BytesIO(); im.save(image, 'PNG'); image.seek(0)\<close> (lines 240-242): writing moves
  the position to the end of what was written, \<^verbatim>\<open>seek\<close> sets it.
\<close>

definition BytesIO :: bytesio where
  "BytesIO = \<lparr>data = [], pos = 0\<rparr>"

definition save :: "world \<Rightarrow> image \<Rightarrow> string \<Rightarrow> bytesio \<Rightarrow> bytesio" where
  "save w im fmt buf =
     (let out = encode w fmt im
      in \<lparr>data = take (pos buf) (data buf) @ out, pos = pos buf + length out\<rparr>)"

definition seek :: "nat \<Rightarrow> bytesio \<Rightarrow> bytesio" where
  "seek n buf = buf\<lparr>pos := n\<rparr>"

text \<open>
  Lines 195-206: the working canvas. The background, resized to 638 by 159, is pasted on a
  blank canvas of the overlay's size, the overlay is pasted over it through its own alpha
  channel, and the user name is written. \<^verbatim>\<open>(327/2)+20\<close> and \<^verbatim>\<open>(327/2)+125\<close> are the floats
  183.5 and 288.5, both exact.
\<close>

definition create_canvas :: "world \<Rightarrow> rankcard \<Rightarrow> image \<Rightarrow> image" where
  "create_canvas w rc bg =
     (let overlay = Asset ''/assets/overlay1.png'' (asset_size w ''/assets/overlay1.png'');
          background0 = New ''RGBA'' (im_size overlay) None;
          backgroundover = Resize bg (638, 159);
          background1 = Paste background0 backgroundover (0, 0) None;
          bg1 = Paste (Resize background1 (im_size overlay)) overlay (0, 0) (Some overlay);
          card_font = Font ''/assets/levelfont.otf'' 40
      in DrawText bg1 (205, 327 / 2 + 20) (username rc) card_font
           (ColorName (text_color rc)) 1 (ColorTuple [0, 0, 0]))"

text \<open>
  Lines 217-238, once the bar width and the three formatted numbers are there: the two
  remaining texts, the avatar pasted through the circular mask (without its alpha band when
  that paste raises), the bar, the curved mask and the final resize. \<open>canvas\<close> is the image
  \<^verbatim>\<open>self.background\<close> refers to, \<open>avatar1\<close> the resized avatar.
\<close>

definition create_layers ::
  "world \<Rightarrow> rankcard \<Rightarrow> image \<Rightarrow> image \<Rightarrow> pyfloat \<Rightarrow> string \<Rightarrow> string \<Rightarrow> string \<Rightarrow> image" where
  "create_layers w rc canvas avatar1 bar cur mx lv =
     (let card_font = Font ''/assets/levelfont.otf'' 30;
          fill = ColorName (text_color rc);
          stroke = ColorTuple [0, 0, 0];
          bg3 = DrawText canvas (197, 327 / 2 + 125) (''LEVEL - '' @ lv) card_font fill 1 stroke;
          xp_text = cur @ ''/'' @ mx;
          wd = fst (textsize w card_font xp_text);
          bg4 = DrawText bg3 (of_int (638 - wd - 50), 327 / 2 + 125) xp_text card_font fill 1 stroke;
          mask_im = Resize (Convert (Asset ''/assets/mask_circle.jpg''
                      (asset_size w ''/assets/mask_circle.jpg'')) ''L'') (170, 170);
          new0 = New ''RGB'' (im_size avatar1) (Some (ColorTuple [0, 0, 0]));
          new1 = (if alpha_paste_raises w avatar1 then Paste new0 avatar1 (0, 0) None
                  else Paste new0 avatar1 (0, 0) (Some (Band (Convert avatar1 ''RGBA'') 3)));
          bg5 = Paste bg4 new1 (13, 65) (Some mask_im);
          im0 = New ''RGB'' (490, 51) (Some (ColorTuple [0, 0, 0]));
          im1 = DrawRoundedRectangle im0 ''RGBA'' (0, 0, Fin 420, 50) 30
                  (ColorTuple [255, 255, 255, 50]);
          im2 = DrawRoundedRectangle im1 ''RGBA'' (0, 0, bar, 50) 30 (ColorName (bar_color rc));
          bg6 = Paste bg5 im2 (190, 235) None;
          new2 = New ''RGBA'' (im_size bg6) None;
          curved = Convert (Asset ''/assets/curvedoverlay.png''
                     (asset_size w ''/assets/curvedoverlay.png'')) ''L''
      in Resize (Paste new2 bg6 (0, 0) (Some curved)) (505, 259))"

text \<open>
  Lines 193-243, with the two decoded pictures. The fields \<^verbatim>\<open>avatar\<close> and \<^verbatim>\<open>background\<close> are
  reassigned on the way, and \<^verbatim>\<open>draw\<close> writes into the image \<^verbatim>\<open>self.background\<close> refers to, so
  the card an exception leaves behind holds what had been stored and drawn by then. The
  exceptions are those of the four number computations, in the order of the source.
\<close>

definition create_render ::
  "world \<Rightarrow> rankcard \<Rightarrow> image \<Rightarrow> image \<Rightarrow> (error + bytesio) \<times> rankcard \<times> event list" where
  "create_render w rc bg av =
     (let avatar1 = Resize av (170, 170);
          canvas = create_canvas w rc bg;
          rc1 = rc\<lparr>avatar := ImageObj avatar1, background := ImageObj canvas\<rparr>;
          t1 = [AssetOpen ''/assets/overlay1.png'', FontOpen ''/assets/levelfont.otf'' 40];
          t2 = t1 @ [FontOpen ''/assets/levelfont.otf'' 30]
      in case bar_exp (current_xp rc) (max_xp rc) of
           Inl e \<Rightarrow> (Inl e, rc1, t1)
         | Inr bar \<Rightarrow>
       (case RankCard_convert_number (current_xp rc) of
           Inl e \<Rightarrow> (Inl e, rc1, t1)
         | Inr cur \<Rightarrow>
       (case RankCard_convert_number (max_xp rc) of
           Inl e \<Rightarrow> (Inl e, rc1, t1)
         | Inr mx \<Rightarrow>
       (case RankCard_convert_number (level rc) of
           Inl e \<Rightarrow> (Inl e, rc1, t2)
         | Inr lv \<Rightarrow>
       (let final = create_layers w rc canvas avatar1 bar cur mx lv;
            image = seek 0 (save w final ''PNG'' BytesIO);
            t3 = t2 @ [AssetOpen ''/assets/mask_circle.jpg'']
                    @ (if alpha_paste_raises w avatar1 then [Print] else [])
                    @ [AssetOpen ''/assets/curvedoverlay.png'']
        in (Inr image, rc1\<lparr>background := ImageObj final\<rparr>, t3))))))"

text \<open>
  The whole method: the result or the exception, the card as the call leaves it, and what was
  done to the outside. An assignment happens only when its right-hand side has a value.
\<close>

definition RankCard_create ::
  "world \<Rightarrow> rankcard \<Rightarrow> (error + bytesio) \<times> rankcard \<times> event list" where
  "RankCard_create w rc =
     (case create_background w (background rc) of
        (Inl e, t1) \<Rightarrow> (Inl e, rc, t1)
      | (Inr bg, t1) \<Rightarrow>
          (let rc1 = rc\<lparr>background := ImageObj bg\<rparr>
           in case create_avatar w (avatar rc1) of
                (Inl e, t2) \<Rightarrow> (Inl e, rc1, t1 @ t2)
              | (Inr av, t2) \<Rightarrow>
                  (case create_render w (rc1\<lparr>avatar := ImageObj av\<rparr>) bg av of
                     (r, rc2, t3) \<Rightarrow> (r, rc2, t1 @ t2 @ t3))))"

section \<open>An example world and example cards\<close>

text \<open>
  A world in which one URL serves an avatar and every other URL answers 404, one local file
  holds a background, and the encoder returns the name of the format; and cards for it.
\<close>

definition example_world :: world where
  "example_world =
     \<lparr>http_get = (\<lambda>u. if u = ''http://cdn.example/avatar.png'' then Some (200, ''AVATAR'')
                      else Some (404, '''')),
      open_file = (\<lambda>p. if p = ''bg.jpg'' then Some ''BACKGROUND'' else None),
      identify = (\<lambda>b. if b = ''AVATAR'' then Some (200, 200)
                      else if b = ''BACKGROUND'' then Some (800, 300) else None),
      textsize = (\<lambda>f s. (18 * int (length s), 30)),
      asset_size = (\<lambda>a. (638, 327)),
      alpha_paste_raises = (\<lambda>im. False),
      encode = (\<lambda>fmt im. fmt)\<rparr>"

definition example_card :: rankcard where
  "example_card =
     RankCard_init \<lparr>s_background = Str ''bg.jpg'', s_bar_color = ''white'', s_text_color = ''white''\<rparr>
       (Str ''http://cdn.example/avatar.png'') 5 ''Alice'' 250 1000"

definition card_avatar_int :: rankcard where
  "card_avatar_int =
     example_card\<lparr>background := Str ''http://cdn.example/avatar.png'', avatar := Other ''int''\<rparr>"

definition card_avatar_path :: rankcard where
  "card_avatar_path = example_card\<lparr>avatar := Str ''bg.jpg''\<rparr>"

definition card_background_int :: rankcard where
  "card_background_int = example_card\<lparr>background := Other ''int'', avatar := Str ''bg.jpg''\<rparr>"

definition card_background_StringIO :: rankcard where
  "card_background_StringIO =
     example_card\<lparr>background :=
       FileObj \<lparr>seekable = True, readable = True, mode = None, content = ''not an image''\<rparr>\<rparr>"

section \<open>Facts about rounding\<close>

subsection \<open>The binary exponent\<close>

lemma powi_pos: "0 < (2::rat) powi e"
  by simp

lemma powi_le: "a \<le> b \<Longrightarrow> (2::rat) powi a \<le> 2 powi b"
  by (rule power_int_increasing) simp_all

lemma powi_less: "a < b \<Longrightarrow> (2::rat) powi a < 2 powi b"
  by (rule power_int_strict_increasing) simp_all

lemma powi_less_cancel: "(2::rat) powi a < 2 powi b \<Longrightarrow> a < b"
  using powi_le [of b a] by (cases "a < b") auto

lemma ilog2_ge1:
  assumes "1 \<le> x"
  shows "2 powi (ilog2 x) \<le> x \<and> x < 2 powi (ilog2 x + 1)"
proof -
  let ?f = "\<lfloor>x\<rfloor>"
  from assms have f: "0 < ?f" by simp
  have b1: "1 \<le> bitlen ?f" using f bitlen_eq_zero_iff [of ?f] bitlen_nonneg [of ?f] by linarith
  from bitlen_bounds [OF f] have lo: "2 ^ nat (bitlen ?f - 1) \<le> ?f" and hi: "?f < 2 ^ nat (bitlen ?f)"
    by simp_all
  have "(2::rat) powi (bitlen ?f - 1) = 2 ^ nat (bitlen ?f - 1)"
    using b1 by (simp add: power_int_nonneg_exp)
  also have "\<dots> = of_int (2 ^ nat (bitlen ?f - 1))" by simp
  also have "\<dots> \<le> of_int ?f" using lo by (simp only: of_int_le_iff)
  also have "\<dots> \<le> x" by simp
  finally have A: "2 powi (bitlen ?f - 1) \<le> x" .
  have "?f + 1 \<le> 2 ^ nat (bitlen ?f)" using hi by simp
  then have "(of_int (?f + 1) :: rat) \<le> of_int (2 ^ nat (bitlen ?f))" by (simp only: of_int_le_iff)
  moreover have "x < of_int (?f + 1)" by simp linarith
  ultimately have "x < of_int (2 ^ nat (bitlen ?f))" by linarith
  also have "\<dots> = 2 powi (bitlen ?f)" using b1 by (simp add: power_int_nonneg_exp)
  finally have B: "x < 2 powi (bitlen ?f)" .
  from A B assms show ?thesis by (simp add: ilog2_def)
qed

lemma ilog2_lt1:
  assumes "0 < x" "x < 1"
  shows "2 powi (ilog2 x) \<le> x \<and> x < 2 powi (ilog2 x + 1)"
proof -
  let ?y = "1 / x"
  let ?n = "\<lceil>?y\<rceil> - 1"
  let ?b = "bitlen ?n"
  from assms have y1: "1 < ?y" by simp
  then have "1 < \<lceil>?y\<rceil>" by (simp add: less_ceiling_iff)
  then have n: "0 < ?n" by simp
  have b1: "1 \<le> ?b" using n bitlen_eq_zero_iff [of ?n] bitlen_nonneg [of ?n] by linarith
  from bitlen_bounds [OF n] have lo: "2 ^ nat (?b - 1) \<le> ?n" and hi: "?n < 2 ^ nat ?b"
    by simp_all
  have "?y \<le> of_int \<lceil>?y\<rceil>" by (rule le_of_int_ceiling)
  also have "\<lceil>?y\<rceil> \<le> 2 ^ nat ?b" using hi by simp
  then have "(of_int \<lceil>?y\<rceil> :: rat) \<le> of_int (2 ^ nat ?b)" by (simp only: of_int_le_iff)
  finally have "?y \<le> 2 ^ nat ?b" by simp
  also have "\<dots> = 2 powi ?b" using b1 by (simp add: power_int_nonneg_exp)
  finally have yb: "?y \<le> 2 powi ?b" .
  have A: "2 powi (- ?b) \<le> x"
  proof -
    have "1 \<le> x * 2 powi ?b" using yb assms by (simp add: field_simps)
    then show ?thesis by (simp add: power_int_minus field_simps)
  qed
  have "(of_int (2 ^ nat (?b - 1)) :: rat) \<le> of_int ?n" using lo by (simp only: of_int_le_iff)
  moreover have "of_int ?n < ?y" using ceiling_correct [of ?y] by simp
  ultimately have "(2::rat) ^ nat (?b - 1) < ?y" by simp
  also have "(2::rat) ^ nat (?b - 1) = 2 powi (?b - 1)" using b1 by (simp add: power_int_nonneg_exp)
  finally have yl: "2 powi (?b - 1) < ?y" .
  have B: "x < 2 powi (- ?b + 1)"
  proof -
    have p: "0 < (2::rat) powi (?b - 1)" by (rule powi_pos)
    have "x * 2 powi (?b - 1) < 1" using yl assms by (simp add: field_simps)
    moreover have "(2::rat) powi (- ?b + 1) * 2 powi (?b - 1) = 1"
      using power_int_add [of "2::rat" "- ?b + 1" "?b - 1"] by simp
    ultimately have "x * 2 powi (?b - 1) < 2 powi (- ?b + 1) * 2 powi (?b - 1)" by simp
    then show ?thesis using p by (simp only: mult_less_cancel_right_pos)
  qed
  from A B assms show ?thesis by (simp add: ilog2_def)
qed

lemma ilog2_bounds:
  "0 < x \<Longrightarrow> 2 powi (ilog2 x) \<le> x \<and> x < 2 powi (ilog2 x + 1)"
  using ilog2_ge1 [of x] ilog2_lt1 [of x] by (cases "1 \<le> x") auto

lemma ilog2_unique:
  assumes "2 powi e \<le> x" "x < 2 powi (e + 1)"
  shows "ilog2 x = e"
proof -
  have x: "0 < x" using assms(1) powi_pos [of e] by linarith
  note b = ilog2_bounds [OF x]
  have "(2::rat) powi e < 2 powi (ilog2 x + 1)" using assms b by linarith
  then have "e < ilog2 x + 1" by (rule powi_less_cancel)
  moreover have "(2::rat) powi (ilog2 x) < 2 powi (e + 1)" using assms b by linarith
  then have "ilog2 x < e + 1" by (rule powi_less_cancel)
  ultimately show ?thesis by linarith
qed

lemma ilog2_mono:
  assumes "0 < x" "x \<le> y"
  shows "ilog2 x \<le> ilog2 y"
proof -
  have y: "0 < y" using assms by linarith
  have "(2::rat) powi (ilog2 x) < 2 powi (ilog2 y + 1)"
    using ilog2_bounds [OF assms(1)] ilog2_bounds [OF y] assms(2) by linarith
  then have "ilog2 x < ilog2 y + 1" by (rule powi_less_cancel)
  then show ?thesis by simp
qed

subsection \<open>Rounding to the nearest integer, ties to even\<close>

lemma rhe_cases:
  "round_half_even q = \<lfloor>q\<rfloor> \<and> q - of_int \<lfloor>q\<rfloor> \<le> 1 / 2
   \<or> round_half_even q = \<lfloor>q\<rfloor> + 1 \<and> 1 / 2 \<le> q - of_int \<lfloor>q\<rfloor>"
  unfolding round_half_even_def Let_def by (simp split: if_splits)

lemma rhe_error: "\<bar>of_int (round_half_even q) - q\<bar> \<le> 1 / 2"
proof -
  have "of_int \<lfloor>q\<rfloor> \<le> q" "q < of_int \<lfloor>q\<rfloor> + 1" by linarith+
  with rhe_cases [of q] show ?thesis by (elim disjE conjE) simp_all
qed

lemma rhe_of_int [simp]: "round_half_even (of_int k) = k"
  by (simp add: round_half_even_def)


lemma rhe_near:
  assumes "\<bar>q - of_int k\<bar> < 1 / 2"
  shows "round_half_even q = k"
proof -
  have "\<bar>(of_int (round_half_even q) :: rat) - of_int k\<bar> < 1"
    using rhe_error [of q] assms by linarith
  then have "(of_int \<bar>round_half_even q - k\<bar> :: rat) < of_int 1" by simp
  then have "\<bar>round_half_even q - k\<bar> < 1" by (simp only: of_int_less_iff)
  then show ?thesis by linarith
qed

lemma rhe_floor_le: "\<lfloor>q\<rfloor> \<le> round_half_even q"
  using rhe_cases [of q] by linarith

lemma rhe_le_floor1: "round_half_even q \<le> \<lfloor>q\<rfloor> + 1"
  using rhe_cases [of q] by linarith

lemma rhe_mono:
  assumes "p \<le> q"
  shows "round_half_even p \<le> round_half_even q"
proof (cases "\<lfloor>p\<rfloor> = \<lfloor>q\<rfloor>")
  case True
  let ?f = "\<lfloor>q\<rfloor>"
  have d: "p - of_int ?f \<le> q - of_int ?f" using assms by simp
  show ?thesis
    unfolding round_half_even_def Let_def True using d by (simp split: if_splits)
next
  case False
  with assms have "\<lfloor>p\<rfloor> + 1 \<le> \<lfloor>q\<rfloor>" using floor_mono [OF assms] by linarith
  with rhe_le_floor1 [of p] rhe_floor_le [of q] show ?thesis by linarith
qed

lemma rhe_le_int: "q \<le> of_int k \<Longrightarrow> round_half_even q \<le> k"
  using rhe_mono [of q "of_int k"] by simp

lemma rhe_ge_int: "of_int k \<le> q \<Longrightarrow> k \<le> round_half_even q"
  using rhe_mono [of "of_int k" q] by simp

subsection \<open>Rounding to 53 bits\<close>

lemma scale_le: "a \<le> b \<Longrightarrow> a * 2 powi k \<le> b * (2::rat) powi k"
  by (simp only: mult_le_cancel_right_pos powi_pos)

lemma scale_less: "a < b \<Longrightarrow> a * 2 powi k < b * (2::rat) powi k"
  by (simp only: mult_less_cancel_right_pos powi_pos)

lemma powi_combine: "(2::rat) powi a * 2 powi b = 2 powi (a + b)"
  by (simp add: power_int_add)

lemma powi_of_int: "0 \<le> k \<Longrightarrow> (2::rat) powi k = of_int (2 ^ nat k)"
  by (simp add: power_int_nonneg_exp)

lemma rhe_le_powi:
  assumes "0 \<le> k" "q \<le> 2 powi k"
  shows "of_int (round_half_even q) \<le> (2::rat) powi k"
proof -
  have "q \<le> of_int (2 ^ nat k)" using assms by (simp only: powi_of_int)
  then have "round_half_even q \<le> 2 ^ nat k" by (rule rhe_le_int)
  then have "(of_int (round_half_even q) :: rat) \<le> of_int (2 ^ nat k)" by (simp only: of_int_le_iff)
  then show ?thesis using assms(1) by (simp only: powi_of_int)
qed

lemma rhe_ge_powi:
  assumes "0 \<le> k" "2 powi k \<le> q"
  shows "(2::rat) powi k \<le> of_int (round_half_even q)"
proof -
  have "of_int (2 ^ nat k) \<le> q" using assms by (simp only: powi_of_int)
  then have "2 ^ nat k \<le> round_half_even q" by (rule rhe_ge_int)
  then have "(of_int (2 ^ nat k) :: rat) \<le> of_int (round_half_even q)" by (simp only: of_int_le_iff)
  then show ?thesis using assms(1) by (simp only: powi_of_int)
qed

lemma round_upper_generic:
  assumes "x < 2 powi (e + 1)" "0 \<le> p + 1"
  shows "of_int (round_half_even (x * 2 powi (p - e))) * 2 powi (e - p) \<le> (2::rat) powi (e + 1)"
proof -
  have "x * 2 powi (p - e) < 2 powi (e + 1) * 2 powi (p - e)" using assms(1) by (rule scale_less)
  also have "\<dots> = 2 powi (p + 1)" unfolding powi_combine by (simp add: algebra_simps)
  finally have "of_int (round_half_even (x * 2 powi (p - e))) \<le> (2::rat) powi (p + 1)"
    using rhe_le_powi [OF assms(2)] by simp
  then have "of_int (round_half_even (x * 2 powi (p - e))) * 2 powi (e - p)
      \<le> (2::rat) powi (p + 1) * 2 powi (e - p)" by (rule scale_le)
  also have "(2::rat) powi (p + 1) * 2 powi (e - p) = 2 powi (e + 1)"
    unfolding powi_combine by (simp add: algebra_simps)
  finally show ?thesis .
qed

lemma round_lower_generic:
  assumes "2 powi e \<le> x" "0 \<le> p"
  shows "(2::rat) powi e \<le> of_int (round_half_even (x * 2 powi (p - e))) * 2 powi (e - p)"
proof -
  have "2 powi e * 2 powi (p - e) \<le> x * 2 powi (p - e)" using assms(1) by (rule scale_le)
  moreover have "(2::rat) powi e * 2 powi (p - e) = 2 powi p" unfolding powi_combine by simp
  ultimately have "(2::rat) powi p \<le> of_int (round_half_even (x * 2 powi (p - e)))"
    using rhe_ge_powi [OF assms(2)] by simp
  then have "(2::rat) powi p * 2 powi (e - p)
      \<le> of_int (round_half_even (x * 2 powi (p - e))) * 2 powi (e - p)" by (rule scale_le)
  moreover have "(2::rat) powi p * 2 powi (e - p) = 2 powi e" unfolding powi_combine by simp
  ultimately show ?thesis by simp
qed

lemma round_mag_nonneg:
  assumes "0 < x"
  shows "0 \<le> round_mag x"
proof -
  let ?e = "max (ilog2 x) (- 1022)"
  have "0 \<le> x * 2 powi (52 - ?e)" using assms by simp
  then have "(of_int 0 :: rat) \<le> x * 2 powi (52 - ?e)" by simp
  then have "0 \<le> round_half_even (x * 2 powi (52 - ?e))" by (rule rhe_ge_int)
  then show ?thesis by (simp add: round_mag_def Let_def)
qed

lemma round_mag_upper:
  assumes "0 < x"
  shows "round_mag x \<le> 2 powi (max (ilog2 x) (- 1022) + 1)"
proof -
  let ?e = "max (ilog2 x) (- 1022)"
  have "x < 2 powi (ilog2 x + 1)" using ilog2_bounds [OF assms] by simp
  also have "\<dots> \<le> 2 powi (?e + 1)" by (rule powi_le) simp
  finally have "x < 2 powi (?e + 1)" .
  then show ?thesis
    unfolding round_mag_def Let_def by (rule round_upper_generic) simp
qed

lemma round_mag_lower:
  assumes "0 < x" "- 1022 \<le> ilog2 x"
  shows "2 powi (ilog2 x) \<le> round_mag x"
proof -
  have e: "max (ilog2 x) (- 1022) = ilog2 x" using assms by simp
  have "2 powi (ilog2 x) \<le> x" using ilog2_bounds [OF assms(1)] by simp
  then show ?thesis
    unfolding round_mag_def Let_def e by (rule round_lower_generic) simp
qed

lemma round_mag_mono:
  assumes "0 < x" "x \<le> y"
  shows "round_mag x \<le> round_mag y"
proof -
  let ?ex = "max (ilog2 x) (- 1022)" and ?ey = "max (ilog2 y) (- 1022)"
  have y: "0 < y" using assms by linarith
  have le: "?ex \<le> ?ey" using ilog2_mono [OF assms] by linarith
  show ?thesis
  proof (cases "?ex = ?ey")
    case True
    have "x * 2 powi (52 - ?ey) \<le> y * 2 powi (52 - ?ey)"
      using assms(2) by (rule scale_le)
    then have "round_half_even (x * 2 powi (52 - ?ey)) \<le> round_half_even (y * 2 powi (52 - ?ey))"
      by (rule rhe_mono)
    then have "(of_int (round_half_even (x * 2 powi (52 - ?ey))) :: rat)
        \<le> of_int (round_half_even (y * 2 powi (52 - ?ey)))"
      by (simp only: of_int_le_iff)
    then have "of_int (round_half_even (x * 2 powi (52 - ?ey))) * (2::rat) powi (?ey - 52)
        \<le> of_int (round_half_even (y * 2 powi (52 - ?ey))) * 2 powi (?ey - 52)"
      by (rule scale_le)
    then show ?thesis unfolding round_mag_def Let_def True .
  next
    case False
    with le have lt: "?ex < ?ey" by linarith
    have ny: "- 1022 \<le> ilog2 y" using lt by linarith
    have ey: "?ey = ilog2 y" using ny by simp
    have "round_mag x \<le> 2 powi (?ex + 1)" by (rule round_mag_upper [OF assms(1)])
    also have "\<dots> \<le> 2 powi (ilog2 y)"
    proof (rule powi_le)
      show "?ex + 1 \<le> ilog2 y" using lt ey by linarith
    qed
    also have "\<dots> \<le> round_mag y" by (rule round_mag_lower [OF y ny])
    finally show ?thesis .
  qed
qed

lemma round_mag_error:
  assumes "0 < x" "- 1022 \<le> ilog2 x"
  shows "\<bar>round_mag x - x\<bar> \<le> 2 powi (ilog2 x - 53)"
proof -
  let ?e = "ilog2 x"
  let ?q = "x * 2 powi (52 - ?e)"
  let ?s = "(2::rat) powi (?e - 52)"
  have e: "max ?e (- 1022) = ?e" using assms by simp
  have s: "0 < ?s" by (rule powi_pos)
  have inv: "2 powi (52 - ?e) * ?s = 1" unfolding powi_combine by simp
  then have xq: "?q * ?s = x" by (simp add: mult.assoc)
  have "round_mag x - x = (of_int (round_half_even ?q) - ?q) * ?s"
    unfolding round_mag_def Let_def e by (simp add: left_diff_distrib xq)
  then have "\<bar>round_mag x - x\<bar> = \<bar>of_int (round_half_even ?q) - ?q\<bar> * ?s"
    using s by (simp add: abs_mult)
  also have "\<dots> \<le> (1 / 2) * ?s"
    using rhe_error [of ?q] by (rule scale_le)
  also have "(1 / 2) * ?s = 2 powi (- 1) * ?s" by simp
  also have "\<dots> = 2 powi (?e - 53)" unfolding powi_combine by simp
  finally show ?thesis .
qed

lemma round_mag_exact:
  assumes "2 powi e \<le> x" "x < 2 powi (e + 1)" "- 1022 \<le> e" "x * 2 powi (52 - e) = of_int k"
  shows "round_mag x = x"
proof -
  have il: "ilog2 x = e" by (rule ilog2_unique [OF assms(1,2)])
  have e: "max e (- 1022) = e" using assms(3) by simp
  have inv: "2 powi (52 - e) * (2::rat) powi (e - 52) = 1" unfolding powi_combine by simp
  have "round_mag x = of_int k * 2 powi (e - 52)"
    unfolding round_mag_def Let_def il e assms(4) by simp
  also have "\<dots> = x * (2 powi (52 - e) * 2 powi (e - 52))" by (simp add: assms(4) [symmetric] mult.assoc)
  finally show ?thesis using inv by simp
qed

subsection \<open>The nearest double\<close>

text \<open>
  The value of \<open>round_double\<close> on either side of zero, the numbers it leaves unchanged, its
  monotonicity against such a number, and the exact point where it overflows: half a unit in
  the last place above the largest double.
\<close>

lemma round_double_pos:
  "0 < x \<Longrightarrow> round_double x = (if 2 powi 1024 \<le> round_mag x then None else Some (round_mag x))"
  by (simp add: round_double_def Let_def)

lemma round_double_neg:
  "x < 0 \<Longrightarrow> round_double x = (if 2 powi 1024 \<le> round_mag (- x) then None else Some (- round_mag (- x)))"
  by (simp add: round_double_def Let_def)

lemma round_double_exact:
  assumes "2 powi e \<le> x" "x < 2 powi (e + 1)" "- 1022 \<le> e" "e < 1024"
    and "x * 2 powi (52 - e) = of_int k"
  shows "round_double x = Some x"
proof -
  have x: "0 < x" using assms(1) powi_pos [of e] by linarith
  have m: "round_mag x = x" by (rule round_mag_exact [OF assms(1,2,3,5)])
  have "x < 2 powi (e + 1)" by fact
  also have "\<dots> \<le> 2 powi 1024"
  proof (rule powi_le)
    show "e + 1 \<le> 1024" using assms(4) by simp
  qed
  finally show ?thesis using x m by (simp only: round_double_pos) simp
qed

lemma round_double_1: "round_double 1 = Some 1"
  by (rule round_double_exact [where e = 0 and k = "2 ^ 52"]) simp_all

lemma round_double_420: "round_double 420 = Some 420"
  by (rule round_double_exact [where e = 8 and k = "420 * 2 ^ 44"]) simp_all

lemma round_double_half: "round_double (1 / 2) = Some (1 / 2)"
  by (rule round_double_exact [where e = "- 1" and k = "2 ^ 52"]) simp_all

lemma round_double_210: "round_double 210 = Some 210"
  by (rule round_double_exact [where e = 7 and k = "210 * 2 ^ 45"]) simp_all

lemma round_double_2: "round_double 2 = Some 2"
  by (rule round_double_exact [where e = 1 and k = "2 ^ 52"]) simp_all

lemma round_double_840: "round_double 840 = Some 840"
  by (rule round_double_exact [where e = 9 and k = "840 * 2 ^ 43"]) simp_all

lemma round_double_quarter: "round_double (1 / 4) = Some (1 / 4)"
  by (rule round_double_exact [where e = "- 2" and k = "2 ^ 52"]) simp_all

lemma round_double_105: "round_double 105 = Some 105"
  by (rule round_double_exact [where e = 6 and k = "105 * 2 ^ 46"]) simp_all


lemma round_double_nonpos:
  assumes "x \<le> 0" "round_double x = Some v"
  shows "v \<le> 0"
proof (cases "x = 0")
  case True
  with assms show ?thesis by (simp add: round_double_def)
next
  case False
  with assms have x: "x < 0" by simp
  then have "0 \<le> round_mag (- x)" by (intro round_mag_nonneg) simp
  with assms(2) x show ?thesis by (simp add: round_double_neg split: if_splits)
qed

lemma round_mag_1: "round_mag 1 = 1"
  by (rule round_mag_exact [where e = 0 and k = "2 ^ 52"]) simp_all

lemma round_mag_420: "round_mag 420 = 420"
  by (rule round_mag_exact [where e = 8 and k = "420 * 2 ^ 44"]) simp_all

lemma round_double_le_exact:
  assumes "x \<le> c" "0 < c" "round_mag c = c" "round_double x = Some v"
  shows "v \<le> c"
proof (cases "0 < x")
  case True
  have "round_mag x \<le> round_mag c" by (rule round_mag_mono [OF True assms(1)])
  with assms True show ?thesis by (simp add: round_double_pos split: if_splits)
next
  case False
  then have "v \<le> 0" using round_double_nonpos [OF _ assms(4)] by simp
  with assms(2) show ?thesis by linarith
qed

lemma round_double_finite_below:
  assumes "0 < x" "x \<le> c" "round_mag c = c" "c < 2 powi 1024"
  shows "round_double x = Some (round_mag x)"
proof -
  have "round_mag x \<le> round_mag c" by (rule round_mag_mono [OF assms(1,2)])
  with assms show ?thesis by (simp add: round_double_pos)
qed

lemma ilog2_less:
  assumes "0 < x" "x < 2 powi k"
  shows "ilog2 x < k"
proof -
  have "(2::rat) powi (ilog2 x) < 2 powi k" using ilog2_bounds [OF assms(1)] assms(2) by linarith
  then show ?thesis by (rule powi_less_cancel)
qed

lemma ilog2_ge:
  assumes "2 powi k \<le> x"
  shows "k \<le> ilog2 x"
proof -
  have x: "0 < x" using assms powi_pos [of k] by linarith
  have "(2::rat) powi k < 2 powi (ilog2 x + 1)" using ilog2_bounds [OF x] assms by linarith
  then have "k < ilog2 x + 1" by (rule powi_less_cancel)
  then show ?thesis by simp
qed

lemma round_double_overflow:
  assumes "2 powi 1024 \<le> x"
  shows "round_double x = None"
proof -
  have x: "0 < x" using assms powi_pos [of 1024] by linarith
  have e: "1024 \<le> ilog2 x" by (rule ilog2_ge [OF assms])
  then have "- 1022 \<le> ilog2 x" by simp
  then have "2 powi (ilog2 x) \<le> round_mag x" by (rule round_mag_lower [OF x])
  moreover have "(2::rat) powi 1024 \<le> 2 powi (ilog2 x)" by (rule powi_le [OF e])
  ultimately have "2 powi 1024 \<le> round_mag x" by linarith
  with x show ?thesis by (simp only: round_double_pos) simp
qed

lemma round_mag_below_max:
  assumes "0 < x" "x < 2 powi 1024 - 2 powi 970"
  shows "round_mag x < 2 powi 1024"
proof -
  let ?e = "max (ilog2 x) (- 1022)"
  have "x < 2 powi 1024" using assms(2) powi_pos [of 970] by linarith
  then have "ilog2 x < 1024" by (rule ilog2_less [OF assms(1)])
  then have e: "?e \<le> 1023" by simp
  show ?thesis
  proof (cases "?e = 1023")
    case False
    with e have "?e + 1 \<le> 1023" by linarith
    then have "(2::rat) powi (?e + 1) \<le> 2 powi 1023" by (rule powi_le)
    moreover have "(2::rat) powi 1023 < 2 powi 1024" by (rule powi_less) simp
    ultimately show ?thesis using round_mag_upper [OF assms(1)] by linarith
  next
    case True
    let ?q = "x * 2 powi (52 - 1023)"
    have "?q < (2 powi 1024 - 2 powi 970) * 2 powi (52 - 1023)" using assms(2) by (rule scale_less)
    also have "\<dots> = 2 powi 53 - 2 powi (- 1)"
      by (simp only: left_diff_distrib powi_combine) simp
    finally have q: "?q < 2 powi 53 - 1 / 2" by simp
    have "of_int (round_half_even ?q) \<le> ?q + 1 / 2" using rhe_error [of ?q] by linarith
    with q have "(of_int (round_half_even ?q) :: rat) < of_int (2 ^ 53)" by simp
    then have "round_half_even ?q < 2 ^ 53" by (simp only: of_int_less_iff)
    then have "round_half_even ?q \<le> 2 ^ 53 - 1" by simp
    then have "(of_int (round_half_even ?q) :: rat) \<le> of_int (2 ^ 53 - 1)" by (simp only: of_int_le_iff)
    then have "of_int (round_half_even ?q) * 2 powi (1023 - 52) \<le> of_int (2 ^ 53 - 1) * (2::rat) powi (1023 - 52)"
      by (rule scale_le)
    also have "of_int (2 ^ 53 - 1) * (2::rat) powi (1023 - 52) = 2 powi 53 * 2 powi (1023 - 52) - 2 powi (1023 - 52)"
      by (simp add: left_diff_distrib)
    also have "\<dots> = 2 powi 1024 - 2 powi 971" by (simp only: powi_combine) simp
    also have "\<dots> < 2 powi 1024" using powi_pos [of 971] by linarith
    finally show ?thesis unfolding round_mag_def Let_def True .
  qed
qed




section \<open>Facts about the arithmetic of the card\<close>

subsection \<open>True division\<close>

text \<open>
  A quotient of at least 1 inside the double range is a positive float with relative error at
  most \<open>2 ^ - 53\<close>; from \<open>2 ^ 1024 - 2 ^ 970\<close> on the division raises.
\<close>

lemma py_truediv_errors:
  "py_truediv a b = Inl e \<Longrightarrow> e = ZeroDivisionError \<or> e = OverflowError"
  by (auto simp: py_truediv_def split: if_splits option.splits)

lemma truediv_ge1:
  assumes "0 < b" "b \<le> a" "of_int a / of_int b < (2::rat) powi 1024 - 2 powi 970"
  shows "\<exists>v. py_truediv a b = Inr v \<and> 0 < v
           \<and> \<bar>v - of_int a / of_int b\<bar> \<le> of_int a / of_int b * 2 powi (- 53)"
proof -
  let ?x = "(of_int a :: rat) / of_int b"
  have x1: "1 \<le> ?x" using assms(1,2) by simp
  then have x: "0 < ?x" by linarith
  have fin: "round_double ?x = Some (round_mag ?x)"
    using round_mag_below_max [OF x assms(3)] x by (simp add: round_double_pos)
  have e0: "0 \<le> ilog2 ?x" using x1 by (intro ilog2_ge) simp
  then have e: "- 1022 \<le> ilog2 ?x" by simp
  have "\<bar>round_mag ?x - ?x\<bar> \<le> 2 powi (ilog2 ?x - 53)" by (rule round_mag_error [OF x e])
  also have "\<dots> = 2 powi (ilog2 ?x) * 2 powi (- 53)" by (simp only: powi_combine) simp
  also have "\<dots> \<le> ?x * 2 powi (- 53)" using ilog2_bounds [OF x] by (intro scale_le) simp
  finally have err: "\<bar>round_mag ?x - ?x\<bar> \<le> ?x * 2 powi (- 53)" .
  have "(2::rat) powi 0 \<le> 2 powi (ilog2 ?x)" by (rule powi_le [OF e0])
  also have "\<dots> \<le> round_mag ?x" by (rule round_mag_lower [OF x e])
  finally have pos: "0 < round_mag ?x" by simp
  from assms(1) fin err pos show ?thesis by (simp add: py_truediv_def)
qed




subsection \<open>The bar width\<close>

lemma float_le_total: "\<not> float_le a b \<Longrightarrow> float_le b a"
  by (cases a; cases b) auto

lemma bar_exp_cases:
  assumes "bar_exp c m = Inr b"
  obtains r where "py_truediv c m = Inr r"
    "b = (if float_le (float_mul r 420) (Fin 50) then Fin 50 else float_mul r 420)"
proof (cases "py_truediv c m")
  case (Inl e)
  with assms show ?thesis by (simp add: bar_exp_def)
next
  case (Inr r)
  with assms have "b = (if float_le (float_mul r 420) (Fin 50) then Fin 50 else float_mul r 420)"
    by (simp add: bar_exp_def Let_def split: if_splits)
  with Inr that show ?thesis by blast
qed

lemma bar_exp_lower:
  assumes "bar_exp c m = Inr b"
  shows "float_le (Fin 50) b"
proof -
  from assms obtain r where
    b: "b = (if float_le (float_mul r 420) (Fin 50) then Fin 50 else float_mul r 420)"
    by (rule bar_exp_cases)
  show ?thesis
  proof (cases "float_le (float_mul r 420) (Fin 50)")
    case True
    with b show ?thesis by simp
  next
    case False
    then have "float_le (Fin 50) (float_mul r 420)" by (rule float_le_total)
    with b False show ?thesis by simp
  qed
qed

lemma bar_exp_upper:
  assumes "bar_exp c m = Inr b" "0 < m" "c \<le> m"
  shows "float_le b (Fin 420)"
proof -
  from assms(1) obtain r where r: "py_truediv c m = Inr r"
    and b: "b = (if float_le (float_mul r 420) (Fin 50) then Fin 50 else float_mul r 420)"
    by (rule bar_exp_cases)
  from r assms(2) have rd: "round_double (of_int c / of_int m) = Some r"
    by (simp add: py_truediv_def split: option.splits)
  have "(of_int c :: rat) / of_int m \<le> 1" using assms(2,3) by simp
  then have r1: "r \<le> 1"
    by (rule round_double_le_exact [OF _ _ round_mag_1 rd]) simp
  then have p: "r * 420 \<le> 420" by simp
  show ?thesis
  proof (cases "float_le (float_mul r 420) (Fin 50)")
    case True
    with b show ?thesis by simp
  next
    case False
    show ?thesis
    proof (cases "round_double (r * 420)")
      case None
      with False have pos: "0 < r * 420" by (simp add: float_mul_def split: if_splits)
      have "420 < (2::rat) powi 1024" by simp
      then have "round_double (r * 420) = Some (round_mag (r * 420))"
        by (rule round_double_finite_below [OF pos p round_mag_420])
      with None show ?thesis by simp
    next
      case (Some v)
      have "v \<le> 420"
        by (rule round_double_le_exact [OF p _ round_mag_420 Some]) simp
      with Some b False show ?thesis by (simp add: float_mul_def)
    qed
  qed
qed

lemma bar_exp_errors:
  "bar_exp c m = Inl e \<Longrightarrow> e = ZeroDivisionError \<or> e = OverflowError"
  by (auto simp: bar_exp_def Let_def split: sum.splits if_splits dest: py_truediv_errors)

lemma bar_exp_0_100: "bar_exp 0 100 = Inr (Fin 50)"
  by (simp add: bar_exp_def py_truediv_def float_mul_def round_double_def)

lemma bar_exp_100_100: "bar_exp 100 100 = Inr (Fin 420)"
  by (simp add: bar_exp_def py_truediv_def float_mul_def round_double_1 round_double_420)

lemma bar_exp_50_100: "bar_exp 50 100 = Inr (Fin 210)"
  by (simp add: bar_exp_def py_truediv_def float_mul_def round_double_half round_double_210)

lemma bar_exp_200_100: "bar_exp 200 100 = Inr (Fin 840)"
  by (simp add: bar_exp_def py_truediv_def float_mul_def round_double_2 round_double_840)

lemma bar_exp_250_1000: "bar_exp 250 1000 = Inr (Fin 105)"
  by (simp add: bar_exp_def py_truediv_def float_mul_def round_double_quarter round_double_105)

subsection \<open>The number formatter\<close>

text \<open>
  \<open>digits\<close> is decimal notation: reading its result back gives the number.
\<close>

lemma digit_char_simps:
  "digit_char 0 = CHR ''0''" "digit_char 1 = CHR ''1''" "digit_char 2 = CHR ''2''"
  "digit_char 3 = CHR ''3''" "digit_char 4 = CHR ''4''" "digit_char 5 = CHR ''5''"
  "digit_char 6 = CHR ''6''" "digit_char 7 = CHR ''7''" "digit_char 8 = CHR ''8''"
  "digit_char 9 = CHR ''9''" "digit_char (Suc 0) = CHR ''1''"
  by (simp_all add: digit_char_def)

lemma digit_value: "d < 10 \<Longrightarrow> of_char (digit_char d) = 48 + d"
proof -
  assume "d < 10"
  then have "d \<in> {0, 1, 2, 3, 4, 5, 6, 7, 8, 9}" by auto
  then show ?thesis by (auto simp: digit_char_simps)
qed

lemma decimal_value_snoc:
  "decimal_value (s @ [c]) = 10 * decimal_value s + (of_char c - 48)"
  by (simp add: decimal_value_def)

lemma decimal_value_digits: "decimal_value (digits n) = n"
proof (induction n rule: digits.induct)
  case (1 n)
  show ?case
  proof (cases "n < 10")
    case True
    then show ?thesis by (simp add: digits.simps [of n] decimal_value_def digit_value)
  next
    case False
    with 1 have "decimal_value (digits (n div 10)) = n div 10" by simp
    with False show ?thesis
      by (simp add: digits.simps [of n] decimal_value_snoc digit_value)
  qed
qed

lemma format_3f_nonneg:
  "0 \<le> v \<Longrightarrow> format_3f v =
     digits (nat (round_half_even (v * 1000)) div 1000) @ ''.'' @
     three_digits (nat (round_half_even (v * 1000)))"
  by (simp add: format_3f_def Let_def)


lemma convert_number_K:
  assumes "1000 \<le> n" "n < 1000000"
  shows "RankCard_convert_number n =
           Inr (digits (nat n div 1000) @ ''.'' @ three_digits (nat n) @ ''K'')"
proof -
  let ?x = "(of_int n :: rat) / of_int 1000"
  have "?x < 1000" using assms(2) by simp
  also have "\<dots> < (2::rat) powi 1024 - 2 powi 970" by simp
  finally have "?x < (2::rat) powi 1024 - 2 powi 970" .
  with truediv_ge1 [of 1000 n] assms(1) obtain v where
    v: "py_truediv n 1000 = Inr v" "0 < v" and err: "\<bar>v - ?x\<bar> \<le> ?x * 2 powi (- 53)"
    by auto
  have "\<bar>v * 1000 - of_int n\<bar> = \<bar>v - ?x\<bar> * 1000" by (simp add: abs_if field_simps)
  also have "\<dots> \<le> ?x * 2 powi (- 53) * 1000" using err by simp
  also have "\<dots> = of_int n * 2 powi (- 53)" by simp
  also have "\<dots> < 1000000 * 2 powi (- 53)" using assms(2) by (intro scale_less) simp
  also have "\<dots> < 1 / 2" by simp
  finally have "round_half_even (v * 1000) = n" by (rule rhe_near)
  with v assms show ?thesis
    by (simp add: RankCard_convert_number_def format_3f_nonneg)
qed



lemma convert_number_errors:
  "RankCard_convert_number n = Inl e \<Longrightarrow> e = ZeroDivisionError \<or> e = OverflowError"
  by (auto simp: RankCard_convert_number_def split: sum.splits if_splits dest: py_truediv_errors)


lemma convert_1000: "RankCard_convert_number 1000 = Inr ''1.000K''"
  using convert_number_K [of 1000]
  by (simp add: digits.simps three_digits_def digit_char_simps)




lemma convert_250: "RankCard_convert_number 250 = Inr ''250''"
  by (simp add: RankCard_convert_number_def str_int_def digits.simps digit_char_simps)

lemma convert_5: "RankCard_convert_number 5 = Inr ''5''"
  by (simp add: RankCard_convert_number_def str_int_def digits.simps digit_char_simps)

section \<open>Facts about \<^verbatim>\<open>create\<close>\<close>

subsection \<open>Resolving the sources\<close>

text \<open>
  Whatever is resolved is a freshly decoded picture, with nothing drawn on it.
\<close>

lemma decoded_texts [simp]:
  "drawn_texts (Decoded b sz) = []" "drawn_rectangles (Decoded b sz) = []"
  by simp_all

lemma Image_open_decoded:
  "Image_open w b = (Inr im, t) \<Longrightarrow> \<exists>sz. im = Decoded b sz"
  by (auto simp: Image_open_def split: option.splits)

lemma Image_open_rb_decoded:
  "Image_open_rb w name = (Inr im, t) \<Longrightarrow> \<exists>b sz. im = Decoded b sz"
  by (auto simp: Image_open_rb_def split: option.splits prod.splits dest: Image_open_decoded)

lemma RankCard_image_decoded:
  "RankCard_image w url = (Inr im, t) \<Longrightarrow> \<exists>b sz. im = Decoded b sz"
  by (auto simp: RankCard_image_def split: option.splits prod.splits if_splits
      dest: Image_open_decoded)

lemma create_background_decoded:
  "create_background w x = (Inr im, t) \<Longrightarrow> \<exists>b sz. im = Decoded b sz"
  by (auto simp: create_background_def split: pyobj.splits option.splits if_splits
      dest: Image_open_decoded Image_open_rb_decoded RankCard_image_decoded)

lemma create_avatar_decoded:
  "create_avatar w x = (Inr im, t) \<Longrightarrow> \<exists>b sz. im = Decoded b sz"
  by (auto simp: create_avatar_def split: pyobj.splits if_splits
      dest: Image_open_rb_decoded RankCard_image_decoded)

lemma Image_open_rb_shape:
  "\<exists>r t'. Image_open_rb w s = (r, FileOpen s ''rb'' # t') \<and> r \<noteq> Inl InvalidImageType"
  by (auto simp: Image_open_rb_def Image_open_def split: option.splits)

lemma background_buffer_check:
  assumes "background rc = FileObj b"
  shows "\<not> seekable b \<or> \<not> readable b \<Longrightarrow> RankCard_create w rc = (Inl InvalidImageType, rc, [])"
    and "seekable b \<Longrightarrow> readable b \<Longrightarrow> mode b = Some m \<Longrightarrow> m \<noteq> ''rb'' \<Longrightarrow>
         RankCard_create w rc = (Inl InvalidImageType, rc, [])"
    and "seekable b \<Longrightarrow> readable b \<Longrightarrow> mode b = None \<Longrightarrow>
         RankCard_create w rc = (Inl AttributeError, rc, [])"
  using assms by (auto simp: RankCard_create_def create_background_def)

subsection \<open>Rendering\<close>

text \<open>
  The size of the finished card and what is drawn on it; what a successful call returns and
  leaves behind; and the only exceptions rendering can raise.
\<close>

lemma canvas_texts:
  "drawn_texts (create_canvas w rc bg) =
     drawn_texts bg @ [((205, 367 / 2), username rc, Font ''/assets/levelfont.otf'' 40)]"
  by (simp add: create_canvas_def Let_def)

lemma canvas_rectangles: "drawn_rectangles (create_canvas w rc bg) = drawn_rectangles bg"
  by (simp add: create_canvas_def Let_def)

lemma layers_size: "im_size (create_layers w rc canvas avatar1 bar cur mx lv) = (505, 259)"
  by (simp add: create_layers_def Let_def)

lemma layers_texts:
  "drawn_texts (create_layers w rc canvas avatar1 bar cur mx lv) =
     drawn_texts canvas @
     [((197, 577 / 2), ''LEVEL - '' @ lv, Font ''/assets/levelfont.otf'' 30),
      ((of_int (638 - fst (textsize w (Font ''/assets/levelfont.otf'' 30) (cur @ ''/'' @ mx)) - 50),
        577 / 2), cur @ ''/'' @ mx, Font ''/assets/levelfont.otf'' 30)] @
     drawn_texts avatar1"
  by (simp add: create_layers_def Let_def)

lemma layers_rectangles:
  "drawn_rectangles (create_layers w rc canvas avatar1 bar cur mx lv) =
     drawn_rectangles canvas @ drawn_rectangles avatar1 @ [(0, 0, Fin 420, 50), (0, 0, bar, 50)]"
  by (simp add: create_layers_def Let_def)

lemma render_success:
  assumes "create_render w rc bg av = (Inr buf, rc', t)"
  shows "\<exists>bar cur mx lv.
    bar_exp (current_xp rc) (max_xp rc) = Inr bar \<and>
    RankCard_convert_number (current_xp rc) = Inr cur \<and>
    RankCard_convert_number (max_xp rc) = Inr mx \<and>
    RankCard_convert_number (level rc) = Inr lv \<and>
    rc' = rc\<lparr>avatar := ImageObj (Resize av (170, 170)),
              background := ImageObj (create_layers w rc (create_canvas w rc bg)
                                        (Resize av (170, 170)) bar cur mx lv)\<rparr> \<and>
    buf = \<lparr>data = encode w ''PNG'' (create_layers w rc (create_canvas w rc bg)
                                        (Resize av (170, 170)) bar cur mx lv), pos = 0\<rparr>"
  using assms unfolding create_render_def Let_def
  by (auto split: sum.splits simp: seek_def save_def BytesIO_def Let_def)

lemma create_success:
  assumes "RankCard_create w rc = (Inr buf, rc', t)"
  shows "\<exists>bg av t1 t2 t3.
    create_background w (background rc) = (Inr bg, t1) \<and>
    create_avatar w (avatar rc) = (Inr av, t2) \<and>
    create_render w (rc\<lparr>background := ImageObj bg, avatar := ImageObj av\<rparr>) bg av = (Inr buf, rc', t3) \<and>
    t = t1 @ t2 @ t3"
  using assms unfolding RankCard_create_def Let_def
  by (auto split: prod.splits sum.splits)

lemma create_result:
  assumes "RankCard_create w rc = (Inr buf, rc', t)"
  shows "\<exists>bar cur mx lv final.
    bar_exp (current_xp rc) (max_xp rc) = Inr bar \<and>
    RankCard_convert_number (current_xp rc) = Inr cur \<and>
    RankCard_convert_number (max_xp rc) = Inr mx \<and>
    RankCard_convert_number (level rc) = Inr lv \<and>
    background rc' = ImageObj final \<and>
    buf = \<lparr>data = encode w ''PNG'' final, pos = 0\<rparr> \<and>
    im_size final = (505, 259) \<and>
    drawn_texts final =
      [((205, 367 / 2), username rc, Font ''/assets/levelfont.otf'' 40),
       ((197, 577 / 2), ''LEVEL - '' @ lv, Font ''/assets/levelfont.otf'' 30),
       ((of_int (638 - fst (textsize w (Font ''/assets/levelfont.otf'' 30) (cur @ ''/'' @ mx)) - 50),
         577 / 2), cur @ ''/'' @ mx, Font ''/assets/levelfont.otf'' 30)] \<and>
    drawn_rectangles final = [(0, 0, Fin 420, 50), (0, 0, bar, 50)]"
proof -
  from create_success [OF assms] obtain bg av t1 t2 t3 where
    bg: "create_background w (background rc) = (Inr bg, t1)" and
    av: "create_avatar w (avatar rc) = (Inr av, t2)" and
    r: "create_render w (rc\<lparr>background := ImageObj bg, avatar := ImageObj av\<rparr>) bg av = (Inr buf, rc', t3)"
    by blast
  from create_background_decoded [OF bg] obtain b1 s1 where bg': "bg = Decoded b1 s1" by blast
  from create_avatar_decoded [OF av] obtain b2 s2 where av': "av = Decoded b2 s2" by blast
  from render_success [OF r] obtain bar cur mx lv where
    "bar_exp (current_xp rc) (max_xp rc) = Inr bar"
    "RankCard_convert_number (current_xp rc) = Inr cur"
    "RankCard_convert_number (max_xp rc) = Inr mx"
    "RankCard_convert_number (level rc) = Inr lv"
    "background rc' = ImageObj (create_layers w (rc\<lparr>background := ImageObj bg, avatar := ImageObj av\<rparr>)
        (create_canvas w (rc\<lparr>background := ImageObj bg, avatar := ImageObj av\<rparr>) bg) (Resize av (170, 170)) bar cur mx lv)"
    "buf = \<lparr>data = encode w ''PNG'' (create_layers w (rc\<lparr>background := ImageObj bg, avatar := ImageObj av\<rparr>)
        (create_canvas w (rc\<lparr>background := ImageObj bg, avatar := ImageObj av\<rparr>) bg) (Resize av (170, 170)) bar cur mx lv), pos = 0\<rparr>"
    by auto
  then show ?thesis
    by (simp add: layers_size layers_texts layers_rectangles canvas_texts canvas_rectangles bg' av')
qed

lemma render_errors:
  assumes "create_render w rc bg av = (Inl e, rc', t)"
  shows "e = ZeroDivisionError \<or> e = OverflowError"
  using assms unfolding create_render_def Let_def
  by (auto split: sum.splits dest: bar_exp_errors convert_number_errors)

subsection \<open>The example card, rendered\<close>

lemma example_background:
  "create_background example_world (Str ''bg.jpg'')
     = (Inr (Decoded ''BACKGROUND'' (800, 300)), [FileOpen ''bg.jpg'' ''rb'', ImageOpen ''BACKGROUND''])"
  by (simp add: create_background_def startswith_def Image_open_rb_def Image_open_def example_world_def)

lemma example_avatar:
  "create_avatar example_world (Str ''http://cdn.example/avatar.png'')
     = (Inr (Decoded ''AVATAR'' (200, 200)),
        [HttpGet ''http://cdn.example/avatar.png'', HttpRead ''http://cdn.example/avatar.png'',
         ImageOpen ''AVATAR''])"
  by (simp add: create_avatar_def startswith_def RankCard_image_def Image_open_def example_world_def)

lemma example_result:
  "fst (RankCard_create example_world example_card) = Inr \<lparr>data = ''PNG'', pos = 0\<rparr>"
  by (simp add: RankCard_create_def example_card_def RankCard_init_def example_background
      example_avatar create_render_def Let_def bar_exp_250_1000 convert_250 convert_1000 convert_5
      seek_def save_def BytesIO_def)
    (simp add: example_world_def)

lemma example_run:
  "RankCard_create example_world example_card =
     (Inr \<lparr>data = ''PNG'', pos = 0\<rparr>,
      fst (snd (RankCard_create example_world example_card)),
      snd (snd (RankCard_create example_world example_card)))"
  by (simp add: prod_eq_iff example_result)

section \<open>The claims\<close>

subsection \<open>C1\<close>

text \<open>
  Claim C1, as the code has it. Whenever \<^verbatim>\<open>create\<close> succeeds with \<^verbatim>\<open>max_xp > 0\<close>, the filled
  rectangle is drawn from 0 to \<^verbatim>\<open>bar_exp\<close>, the float \<^verbatim>\<open>(current_xp/max_xp)*420\<close> raised to 50
  when it is at most 50. This width is never below 50. There is no upper clamp: it is at most
  420 when \<^verbatim>\<open>current_xp <= max_xp\<close>, and the track itself is the rectangle from 0 to 420.
\<close>

theorem bar_width:
  assumes "RankCard_create w rc = (Inr buf, rc', t)" "0 < max_xp rc"
  shows "\<exists>bar final.
           bar_exp (current_xp rc) (max_xp rc) = Inr bar \<and>
           background rc' = ImageObj final \<and>
           drawn_rectangles final = [(0, 0, Fin 420, 50), (0, 0, bar, 50)] \<and>
           float_le (Fin 50) bar \<and>
           (current_xp rc \<le> max_xp rc \<longrightarrow> float_le bar (Fin 420))"
proof -
  from create_result [OF assms(1)] obtain bar final where
    b: "bar_exp (current_xp rc) (max_xp rc) = Inr bar" and
    f: "background rc' = ImageObj final"
       "drawn_rectangles final = [(0, 0, Fin 420, 50), (0, 0, bar, 50)]"
    by blast
  have "float_le (Fin 50) bar" by (rule bar_exp_lower [OF b])
  moreover have "current_xp rc \<le> max_xp rc \<longrightarrow> float_le bar (Fin 420)"
    using bar_exp_upper [OF b assms(2)] by blast
  ultimately show ?thesis using b f by blast
qed

text \<open>The bounds at 250 of 1000 XP, on the example card.\<close>

theorem bar_width_witness:
  "0 < max_xp example_card \<and> current_xp example_card \<le> max_xp example_card \<and>
   (\<exists>bar final.
      bar_exp (current_xp example_card) (max_xp example_card) = Inr bar \<and>
      background (fst (snd (RankCard_create example_world example_card))) = ImageObj final \<and>
      drawn_rectangles final = [(0, 0, Fin 420, 50), (0, 0, bar, 50)] \<and>
      float_le (Fin 50) bar \<and> float_le bar (Fin 420))"
proof -
  have h: "0 < max_xp example_card" "current_xp example_card \<le> max_xp example_card"
    by (simp_all add: example_card_def RankCard_init_def)
  from bar_width [OF example_run h(1)] h show ?thesis by blast
qed

text \<open>
  With 200 of 100 XP the width is 840, beyond the 420 of the track: the claim's upper bound
  does not hold when \<^verbatim>\<open>current_xp > max_xp\<close>.
\<close>

theorem bar_width_counterexample:
  "bar_exp 200 100 = Inr (Fin 840) \<and> \<not> float_le (Fin 840) (Fin 420)"
  by (simp add: bar_exp_200_100)

subsection \<open>C2\<close>

text \<open>
  Claim C2, as the code has it. The background is resolved first (lines 173-183), the avatar
  is looked at afterwards (line 185). With an avatar that is not a string, \<^verbatim>\<open>create\<close> raises what
  resolving the background raises, if it fails; otherwise it stores the decoded background and
  raises \<^verbatim>\<open>InvalidImageType\<close>, having done to the outside exactly what resolving the background
  did, and nothing for the avatar or the rendering.
\<close>

theorem avatar_type_check:
  assumes "\<And>s. avatar rc \<noteq> Str s"
  shows "RankCard_create w rc =
           (case create_background w (background rc) of
              (Inl e, t) \<Rightarrow> (Inl e, rc, t)
            | (Inr bg, t) \<Rightarrow> (Inl InvalidImageType, rc\<lparr>background := ImageObj bg\<rparr>, t))"
  using assms
  by (cases "avatar rc")
     (auto simp: RankCard_create_def create_avatar_def Let_def split: prod.splits sum.splits)

text \<open>An avatar of type int, on a card whose background is a URL.\<close>

theorem avatar_type_check_witness:
  "(\<forall>s. avatar card_avatar_int \<noteq> Str s) \<and>
   RankCard_create example_world card_avatar_int =
     (case create_background example_world (background card_avatar_int) of
        (Inl e, t) \<Rightarrow> (Inl e, card_avatar_int, t)
      | (Inr bg, t) \<Rightarrow> (Inl InvalidImageType, card_avatar_int\<lparr>background := ImageObj bg\<rparr>, t))"
proof -
  have h: "\<And>s. avatar card_avatar_int \<noteq> Str s" by (simp add: card_avatar_int_def)
  from avatar_type_check [of card_avatar_int example_world, OF h] h show ?thesis by simp
qed

text \<open>
  The avatar is an int and the background a URL: the type error is raised, but only after the
  background has been requested, read and decoded. The failure does not come before all
  network and file access.
\<close>

theorem avatar_type_check_counterexample:
  "RankCard_create example_world card_avatar_int =
     (Inl InvalidImageType,
      card_avatar_int\<lparr>background := ImageObj (Decoded ''AVATAR'' (200, 200))\<rparr>,
      [HttpGet ''http://cdn.example/avatar.png'', HttpRead ''http://cdn.example/avatar.png'',
       ImageOpen ''AVATAR''])"
  by (simp add: RankCard_create_def card_avatar_int_def create_background_def startswith_def
      RankCard_image_def Image_open_def create_avatar_def example_world_def)

subsection \<open>C3\<close>




subsection \<open>C4\<close>

text \<open>
  Claim C4. The check of lines 173-175 rejects with \<^verbatim>\<open>InvalidImageType\<close> a buffer that is not
  seekable, or not readable, or whose \<^verbatim>\<open>mode\<close> is not \<^verbatim>\<open>"rb"\<close> (lemma \<open>background_buffer_check\<close>
  above). It reads the attribute \<^verbatim>\<open>mode\<close> without asking whether the buffer has one: an
  \<^verbatim>\<open>io.StringIO\<close>, a seekable and readable text buffer in memory, has none, and \<^verbatim>\<open>create\<close>
  raises \<^verbatim>\<open>AttributeError\<close> where the claim, and the message of line 175, say
  \<^verbatim>\<open>InvalidImageType\<close>.
\<close>

theorem background_StringIO:
  "RankCard_create example_world card_background_StringIO =
     (Inl AttributeError, card_background_StringIO, [])"
  by (simp add: RankCard_create_def create_background_def card_background_StringIO_def)

subsection \<open>C5\<close>

text \<open>
  Claim C5. Given the response to the GET of \<^verbatim>\<open>_image\<close>: with a status other than 200 the
  result is \<^verbatim>\<open>InvalidImageUrl\<close>, and the request is all that happened (the body is neither read
  nor decoded); and an image is returned only with status 200.
\<close>

theorem image_status:
  assumes "http_get w url = Some (status, body)"
  shows "(status \<noteq> 200 \<longrightarrow> RankCard_image w url = (Inl InvalidImageUrl, [HttpGet url]))
       \<and> ((\<exists>im t. RankCard_image w url = (Inr im, t)) \<longrightarrow> status = 200)"
  using assms by (auto simp: RankCard_image_def)

text \<open>A URL answered with status 404.\<close>

theorem image_status_witness:
  "http_get example_world ''http://cdn.example/missing.png'' = Some (404, '''')
   \<and> RankCard_image example_world ''http://cdn.example/missing.png''
       = (Inl InvalidImageUrl, [HttpGet ''http://cdn.example/missing.png''])"
proof -
  have h: "http_get example_world ''http://cdn.example/missing.png'' = Some (404, '''')"
    by (simp add: example_world_def)
  from image_status [OF h] show ?thesis using h by simp
qed

subsection \<open>C6\<close>

text \<open>
  Claim C6. On the card a successful \<^verbatim>\<open>create\<close> leaves, three texts are drawn: the user name;
  \<^verbatim>\<open>LEVEL - \<close> and the formatted level at (197, 288.5) in the 30-point font; and the formatted
  current and maximal XP, joined by a slash, in the same font at the same height 288.5 and at
  \<open>x = 638 - w - 50\<close>, where \<open>w\<close> is the width \<^verbatim>\<open>textsize\<close> measures for that very string in that
  font.
\<close>

theorem xp_text_position:
  assumes "RankCard_create w rc = (Inr buf, rc', t)"
  shows "\<exists>cur mx lv final.
           RankCard_convert_number (current_xp rc) = Inr cur \<and>
           RankCard_convert_number (max_xp rc) = Inr mx \<and>
           RankCard_convert_number (level rc) = Inr lv \<and>
           background rc' = ImageObj final \<and>
           drawn_texts final =
             [((205, 367 / 2), username rc, Font ''/assets/levelfont.otf'' 40),
              ((197, 577 / 2), ''LEVEL - '' @ lv, Font ''/assets/levelfont.otf'' 30),
              ((of_int (638 - fst (textsize w (Font ''/assets/levelfont.otf'' 30) (cur @ ''/'' @ mx)) - 50),
                577 / 2), cur @ ''/'' @ mx, Font ''/assets/levelfont.otf'' 30)]"
  using create_result [OF assms] by blast

text \<open>The example card.\<close>

theorem xp_text_position_witness:
  "\<exists>cur mx lv final.
     RankCard_convert_number (current_xp example_card) = Inr cur \<and>
     RankCard_convert_number (max_xp example_card) = Inr mx \<and>
     RankCard_convert_number (level example_card) = Inr lv \<and>
     background (fst (snd (RankCard_create example_world example_card))) = ImageObj final \<and>
     drawn_texts final =
       [((205, 367 / 2), username example_card, Font ''/assets/levelfont.otf'' 40),
        ((197, 577 / 2), ''LEVEL - '' @ lv, Font ''/assets/levelfont.otf'' 30),
        ((of_int (638 - fst (textsize example_world (Font ''/assets/levelfont.otf'' 30) (cur @ ''/'' @ mx)) - 50),
          577 / 2), cur @ ''/'' @ mx, Font ''/assets/levelfont.otf'' 30)]"
  by (rule xp_text_position [OF example_run])

subsection \<open>C7\<close>

text \<open>
  Claim C7. What a successful \<^verbatim>\<open>create\<close> returns is a buffer at position 0 whose bytes are the
  PNG encoding of an image of size 505 by 259.
\<close>

theorem png_output:
  assumes "RankCard_create w rc = (Inr buf, rc', t)"
  shows "pos buf = 0 \<and> (\<exists>final. data buf = encode w ''PNG'' final \<and> im_size final = (505, 259))"
proof -
  from create_result [OF assms] obtain final where
    "buf = \<lparr>data = encode w ''PNG'' final, pos = 0\<rparr>" "im_size final = (505, 259)"
    by blast
  then show ?thesis by auto
qed

text \<open>The buffer returned for the example card.\<close>

theorem png_output_witness:
  "pos \<lparr>data = ''PNG'', pos = 0\<rparr> = 0 \<and>
   (\<exists>final. data \<lparr>data = ''PNG'', pos = 0\<rparr> = encode example_world ''PNG'' final
      \<and> im_size final = (505, 259))"
  by (rule png_output [OF example_run])

subsection \<open>C8\<close>

text \<open>
  Claim C8. The bar width is 50 for 0 of 100 XP, 420 for 100 of 100 and 210 for 50 of 100;
  the three float computations are exact.
\<close>

theorem bar_width_samples:
  "bar_exp 0 100 = Inr (Fin 50) \<and> bar_exp 100 100 = Inr (Fin 420) \<and> bar_exp 50 100 = Inr (Fin 210)"
  by (simp add: bar_exp_0_100 bar_exp_100_100 bar_exp_50_100)

subsection \<open>C9\<close>

text \<open>
  Claim C9. After a successful \<^verbatim>\<open>create\<close> the field \<^verbatim>\<open>background\<close> holds an image, and calling
  \<^verbatim>\<open>create\<close> on the card as it then is raises \<^verbatim>\<open>InvalidImageType\<close> at once, in any world,
  leaving the card as it was and touching nothing outside.
\<close>

theorem create_twice:
  assumes "RankCard_create w rc = (Inr buf, rc', t)"
  shows "(\<exists>im. background rc' = ImageObj im) \<and>
         RankCard_create w' rc' = (Inl InvalidImageType, rc', [])"
proof -
  from create_result [OF assms] obtain final where f: "background rc' = ImageObj final" by blast
  then have "RankCard_create w' rc' = (Inl InvalidImageType, rc', [])"
    by (simp add: RankCard_create_def create_background_def)
  with f show ?thesis by blast
qed

text \<open>The example card, rendered and rendered again.\<close>

theorem create_twice_witness:
  "(\<exists>im. background (fst (snd (RankCard_create example_world example_card))) = ImageObj im) \<and>
   RankCard_create example_world (fst (snd (RankCard_create example_world example_card))) =
     (Inl InvalidImageType, fst (snd (RankCard_create example_world example_card)), [])"
  by (rule create_twice [OF example_run])

subsection \<open>C10\<close>

text \<open>
  Claim C10, as the code has it. An avatar string that does not begin with \<^verbatim>\<open>http\<close> is
  handed to \<^verbatim>\<open>Image.open(open(s, "rb"))\<close>. The background comes first (lines 173-183): when it
  has been resolved, the next thing \<^verbatim>\<open>create\<close> does is to open that path for binary reading,
  and whatever follows, it does not raise \<^verbatim>\<open>InvalidImageType\<close>.
\<close>

theorem avatar_local_path:
  assumes "avatar rc = Str s" "\<not> startswith s ''http''"
    and "create_background w (background rc) = (Inr bg, t1)"
  shows "create_avatar w (avatar rc) = Image_open_rb w s \<and>
         fst (RankCard_create w rc) \<noteq> Inl InvalidImageType \<and>
         (\<exists>t'. snd (snd (RankCard_create w rc)) = t1 @ FileOpen s ''rb'' # t')"
proof -
  have av: "create_avatar w (avatar rc) = Image_open_rb w s"
    using assms(1,2) by (simp add: create_avatar_def)
  from Image_open_rb_shape [of w s] obtain r t2 where
    o: "Image_open_rb w s = (r, FileOpen s ''rb'' # t2)" and r: "r \<noteq> Inl InvalidImageType"
    by blast
  show ?thesis
  proof (cases r)
    case (Inl e)
    with r have "e \<noteq> InvalidImageType" by simp
    with Inl o av assms(1,3) show ?thesis
      by (simp add: RankCard_create_def Let_def)
  next
    case (Inr im)
    obtain res rc2 t3 where
      rd: "create_render w (rc\<lparr>background := ImageObj bg, avatar := ImageObj im\<rparr>) bg im = (res, rc2, t3)"
      by (metis prod_cases3)
    have "res \<noteq> Inl InvalidImageType"
    proof
      assume "res = Inl InvalidImageType"
      with rd render_errors show False by fastforce
    qed
    with Inr o av assms(1,3) rd show ?thesis
      by (simp add: RankCard_create_def Let_def)
  qed
qed

text \<open>A card whose avatar is the path of a local file.\<close>

theorem avatar_local_path_witness:
  "avatar card_avatar_path = Str ''bg.jpg'' \<and> \<not> startswith ''bg.jpg'' ''http'' \<and>
   fst (RankCard_create example_world card_avatar_path) \<noteq> Inl InvalidImageType \<and>
   (\<exists>t'. snd (snd (RankCard_create example_world card_avatar_path)) =
      [FileOpen ''bg.jpg'' ''rb'', ImageOpen ''BACKGROUND''] @ FileOpen ''bg.jpg'' ''rb'' # t')"
proof -
  have a: "avatar card_avatar_path = Str ''bg.jpg''" by (simp add: card_avatar_path_def)
  have b: "\<not> startswith ''bg.jpg'' ''http''" by (simp add: startswith_def)
  have c: "create_background example_world (background card_avatar_path)
             = (Inr (Decoded ''BACKGROUND'' (800, 300)),
                [FileOpen ''bg.jpg'' ''rb'', ImageOpen ''BACKGROUND''])"
    by (simp add: card_avatar_path_def example_card_def RankCard_init_def example_background)
  from avatar_local_path [OF a b c] a b show ?thesis by blast
qed

text \<open>
  The avatar is the path of a local file, but the background is an int: line 183 raises
  \<^verbatim>\<open>InvalidImageType\<close> before the avatar is looked at, and the path is never opened. Without the
  background resolved, the claim does not hold.
\<close>

theorem avatar_local_path_counterexample:
  "avatar card_background_int = Str ''bg.jpg'' \<and> \<not> startswith ''bg.jpg'' ''http'' \<and>
   RankCard_create example_world card_background_int =
     (Inl InvalidImageType, card_background_int, [])"
  by (simp add: RankCard_create_def create_background_def card_background_int_def startswith_def)

end
